theory Spec2Isabelle
  imports Main "HOL-Library.Sublist"
begin

section \<open>Data model\<close>

text \<open>
  The orchestrator of \<^verbatim>\<open>src/runAll.ts\<close> is embedded with explicit state passing.
  The state is the shared log buffer of the \<^verbatim>\<open>Logs\<close> module, the sequence of calls
  made to the outside world so far (build step, browser, hooks, status printing, process
  exit), and the number of modules imported so far.
\<close>

datatype severity = Info | Warning | Error

record log_entry =
  logSource :: string
  logText :: string
  severity :: severity

text \<open>
  A value thrown by user code has the TypeScript type \<^verbatim>\<open>unknown\<close>. The source only
  ever inspects its truthiness (\<^verbatim>\<open>!!err\<close>, \<^verbatim>\<open>err || hasErrorLog\<close>, \<^verbatim>\<open>if (err)\<close>),
  so a thrown value is either truthy (an \<^verbatim>\<open>Error\<close> object, here with its message) or
  falsy (\<^verbatim>\<open>undefined\<close>, \<^verbatim>\<open>null\<close>, \<^verbatim>\<open>0\<close>, the empty string: what
  \<^verbatim>\<open>Promise.reject()\<close> or \<^verbatim>\<open>throw null\<close> produce).
\<close>

datatype jsvalue = Truthy string | Falsy

text \<open>\<^verbatim>\<open>err: null | unknown\<close>: \<open>None\<close> is \<^verbatim>\<open>undefined\<close>/\<^verbatim>\<open>null\<close>.\<close>

fun truthy :: "jsvalue option \<Rightarrow> bool" where
  "truthy None = False"
| "truthy (Some Falsy) = False"
| "truthy (Some (Truthy m)) = True"

text \<open>
  Errors that leave a function of \<^verbatim>\<open>runAll.ts\<close>: a failed \<^verbatim>\<open>assert\<close>, a failed
  \<^verbatim>\<open>assertUsage\<close> with its message, or a value thrown by user code that nothing caught.
\<close>

datatype error = AssertionFailed | UsageError string | Raised jsvalue

datatype event =
    BuildTs string string
  | SetCurrentTest "string option"
  | Import string
  | CleanBuild
  | NewPage
  | StartServer
  | TerminateServer
  | PageClose
  | LogProgress string
  | CallTestFn string
  | ProgressDone bool
  | AfterEach bool
  | LogWarn string
  | LogPass
  | LogFail string bool
  | LogError jsvalue
  | LogErrorsAndWarnings
  | FlushLogs
  | ProcessExit nat

record world =
  logs :: "log_entry list"
  trace :: "event list"
  loads :: nat

definition emit :: "event list \<Rightarrow> world \<Rightarrow> world" where
  "emit evs w = w\<lparr>trace := trace w @ evs\<rparr>"

text \<open>
  How a call ends: it returns a value, the process is terminated by
  \<^verbatim>\<open>process.exit\<close>, an error propagates to the caller, or an awaited promise never
  settles.
\<close>

datatype 'a result = Return 'a world | Exit nat world | Throw error world | Hang world

text \<open>The environment signals the orchestrator reads, and \<^verbatim>\<open>humanizeTime\<close> of
  \<^verbatim>\<open>utils\<close>, whose source is missing and which is taken as a parameter.\<close>

record env =
  isCI :: bool
  isParallelCI :: bool
  isWindows :: bool
  humanizeTime :: "nat \<Rightarrow> string"

subsection \<open>The test file's declarations\<close>

text \<open>
  A hook (\<^verbatim>\<open>startServer\<close>, \<^verbatim>\<open>terminateServer\<close>, \<^verbatim>\<open>afterEach\<close>) is user code: run on
  the current log buffer it leaves a new buffer and either returns (\<open>None\<close>) or throws a
  value.
\<close>

type_synonym hook = "log_entry list \<Rightarrow> jsvalue option \<times> log_entry list"

text \<open>
  What a case body does when \<^verbatim>\<open>runTest\<close> calls it: it throws synchronously, or it
  returns an awaitable that settles before the timer of \<^verbatim>\<open>runTest\<close> fires, after it
  fired, or never.
\<close>

datatype settle = Fulfils | Rejects jsvalue

datatype body = ThrowsSync jsvalue | SettlesBeforeTimer settle | SettlesAfterTimer settle | NeverSettles

record testcase =
  testDesc :: string
  testFn :: "log_entry list \<Rightarrow> body \<times> log_entry list"

record runInfo =
  isFlaky :: bool
  testFunctionTimeout :: nat
  doNotFailOnWarning :: bool

text \<open>\<^verbatim>\<open>TestInfo\<close>: every field is unset (\<^verbatim>\<open>undefined\<close>) until the test file calls
  \<^verbatim>\<open>skip()\<close>, \<^verbatim>\<open>run()\<close> or \<^verbatim>\<open>test()\<close>.\<close>

record testInfo =
  skipped :: "string option"
  runInfo :: "runInfo option"
  tests :: "testcase list option"
  startServer :: "hook option"
  terminateServer :: "hook option"
  afterEach :: "(bool \<Rightarrow> hook) option"

text \<open>
  Importing the built module runs the test file's top level, which fills in the
  \<^verbatim>\<open>TestInfo\<close> or throws. The import is cache-busted, so the module is evaluated afresh
  each time: the loader depends on the file and on how many imports came before.
\<close>

type_synonym loader = "string \<Rightarrow> nat \<Rightarrow> jsvalue + testInfo"

section \<open>The log buffer\<close>

text \<open>
  The module \<^verbatim>\<open>Logs\<close> is imported by \<^verbatim>\<open>runAll.ts\<close> and its source is not part of
  the repository's files under study. Its operations are modelled from the contract the
  specification gives for the failure log (section 4.1): a shared buffer of entries, each
  with a source, a text and a severity.
\<close>

text \<open>Modelled from the spec: \<^verbatim>\<open>Logs.add\<close> is missing; the spec's \<^verbatim>\<open>add(entry)\<close> appends
  the entry to the shared buffer.\<close>

definition Logs_add :: "log_entry \<Rightarrow> world \<Rightarrow> world" where
  "Logs_add e w = w\<lparr>logs := logs w @ [e]\<rparr>"

text \<open>Modelled from the spec: \<^verbatim>\<open>Logs.hasFailLogs\<close> is missing; the spec's
  \<^verbatim>\<open>hasFailures(failOnWarning)\<close> is true if any \<^verbatim>\<open>error\<close> entry exists, or, when
  \<^verbatim>\<open>failOnWarning\<close>, any \<^verbatim>\<open>warning\<close> entry exists.\<close>

definition disqualifying :: "bool \<Rightarrow> log_entry \<Rightarrow> bool" where
  "disqualifying failOnWarning e =
     (severity e = Error \<or> (failOnWarning \<and> severity e = Warning))"

definition hasFailLogs :: "bool \<Rightarrow> log_entry list \<Rightarrow> bool" where
  "hasFailLogs failOnWarning l = list_ex (disqualifying failOnWarning) l"

text \<open>Modelled from the spec: \<^verbatim>\<open>Logs.clearLogs\<close> is missing; the spec's \<^verbatim>\<open>clear()\<close>
  empties the buffer.\<close>

definition clearLogs :: "world \<Rightarrow> world" where
  "clearLogs w = w\<lparr>logs := []\<rparr>"

text \<open>Modelled from the spec: \<^verbatim>\<open>Logs.logErrorsAndWarnings\<close> is missing; it prints, and
  the spec gives it no effect on the buffer.\<close>

definition logErrorsAndWarnings :: "world \<Rightarrow> world" where
  "logErrorsAndWarnings w = emit [LogErrorsAndWarnings] w"

text \<open>Modelled from the spec: \<^verbatim>\<open>Logs.flushLogs\<close> is missing; the spec's
  \<^verbatim>\<open>drainForReport()\<close> takes the buffered entries out of the buffer for the report.\<close>

definition flushLogs :: "world \<Rightarrow> world" where
  "flushLogs w = (emit [FlushLogs] w)\<lparr>logs := []\<rparr>"

section \<open>Reporting a failure\<close>

text \<open>\<^verbatim>\<open>logFailure\<close>, lines 189 to 196; \<^verbatim>\<open>logError\<close> is called when \<^verbatim>\<open>err\<close> is
  truthy.\<close>

definition logFailure :: "jsvalue option \<Rightarrow> string \<Rightarrow> bool \<Rightarrow> world \<Rightarrow> world" where
  "logFailure err reason isFinalAttempt w =
     (let w1 = emit [LogFail reason isFinalAttempt] w;
          w2 = (case err of
                  Some (Truthy m) \<Rightarrow> emit [LogError (Truthy m)] w1
                | _ \<Rightarrow> w1);
          w3 = logErrorsAndWarnings w2
      in flushLogs w3)"

text \<open>\<^verbatim>\<open>getErrorType\<close>, lines 198 to 200.\<close>

definition getErrorType :: "bool \<Rightarrow> string" where
  "getErrorType failOnWarning =
     (if \<not> failOnWarning then ''error(s)'' else ''error(s)/warning(s)'')"

section \<open>The case executor\<close>

text \<open>
  \<^verbatim>\<open>runTest\<close>, lines 202 to 227. The promise is settled by the first call of
  \<^verbatim>\<open>resolve\<close> or \<^verbatim>\<open>reject\<close>; later calls change nothing. The timer set by
  \<^verbatim>\<open>setTimeout\<close> is armed until it fires or \<^verbatim>\<open>clearTimeout\<close> reaches it.
\<close>

datatype promise_state = Pending | Fulfilled | Rejected jsvalue

datatype timer_state = Armed | Fired | Cleared

record race =
  promise :: promise_state
  timer :: timer_state

definition resolve :: "race \<Rightarrow> race" where
  "resolve r = (if promise r = Pending then r\<lparr>promise := Fulfilled\<rparr> else r)"

definition reject :: "jsvalue \<Rightarrow> race \<Rightarrow> race" where
  "reject v r = (if promise r = Pending then r\<lparr>promise := Rejected v\<rparr> else r)"

definition clearTimeout :: "race \<Rightarrow> race" where
  "clearTimeout r = (if timer r = Armed then r\<lparr>timer := Cleared\<rparr> else r)"

definition timeoutError :: "env \<Rightarrow> nat \<Rightarrow> jsvalue" where
  "timeoutError env ms =
     Truthy (''[test] Timeout after '' @ humanizeTime env ms)"

text \<open>The timer callback of lines 210 to 212; a cleared timer never runs it.\<close>

definition timerFires :: "env \<Rightarrow> nat \<Rightarrow> race \<Rightarrow> race" where
  "timerFires env ms r =
     (if timer r = Armed
      then reject (timeoutError env ms) (r\<lparr>timer := Fired\<rparr>)
      else r)"

text \<open>The asynchronous block of lines 215 to 224, resumed when \<^verbatim>\<open>ret\<close> settles.\<close>

definition awaitedSettles :: "settle \<Rightarrow> race \<Rightarrow> race" where
  "awaitedSettles s r =
     clearTimeout (case s of Fulfils \<Rightarrow> resolve r | Rejects v \<Rightarrow> reject v r)"

text \<open>
  The outcome of the call \<^verbatim>\<open>runTest(testFn, testFunctionTimeout)\<close>: either the call
  itself throws (the body threw inside \<^verbatim>\<open>testFn()\<close> on line 214, before the
  asynchronous block exists), or it returns the promise, whose state is given here once
  the timer and the awaitable have had their turn, in the order the body's behaviour
  fixes.
\<close>

datatype runTest_result = CallThrew jsvalue race | Returned race

definition runTest :: "env \<Rightarrow> body \<Rightarrow> nat \<Rightarrow> runTest_result" where
  "runTest env b ms =
     (let r0 = \<lparr>promise = Pending, timer = Armed\<rparr> in
      case b of
        ThrowsSync v \<Rightarrow> CallThrew v r0
      | SettlesBeforeTimer s \<Rightarrow>
          Returned (timerFires env ms (awaitedSettles s r0))
      | SettlesAfterTimer s \<Rightarrow>
          Returned (awaitedSettles s (timerFires env ms r0))
      | NeverSettles \<Rightarrow> Returned (timerFires env ms r0))"

text \<open>
  What \<^verbatim>\<open>try { await runTest(...) } catch (err_) { err = err_ }\<close> leaves in \<^verbatim>\<open>err\<close>:
  \<open>Some None\<close> when the promise fulfilled, \<open>Some (Some v)\<close> when \<open>v\<close> was caught, and
  \<open>None\<close> when the promise stays pending, so that the \<^verbatim>\<open>await\<close> never returns.
\<close>

definition caught :: "runTest_result \<Rightarrow> jsvalue option option" where
  "caught res =
     (case res of
        CallThrew v r \<Rightarrow> Some (Some v)
      | Returned r \<Rightarrow>
          (case promise r of
             Fulfilled \<Rightarrow> Some None
           | Rejected v \<Rightarrow> Some (Some v)
           | Pending \<Rightarrow> None))"

section \<open>The case loop\<close>

definition callHook :: "event \<Rightarrow> hook \<Rightarrow> world \<Rightarrow> jsvalue option \<times> world" where
  "callHook ev h w = (case h (logs w) of (r, l) \<Rightarrow> (r, (emit [ev] w)\<lparr>logs := l\<rparr>))"

definition dquote :: string where
  "dquote = [CHR 0x22]"

text \<open>
  One iteration of the loop of \<^verbatim>\<open>runTests\<close>, lines 151 to 182: the returned flag is
  \<^verbatim>\<open>isFailure\<close>. The marker entry carries severity \<open>Info\<close>.
\<close>

definition runCase :: "env \<Rightarrow> runInfo \<Rightarrow> (bool \<Rightarrow> hook) \<Rightarrow> bool \<Rightarrow> testcase \<Rightarrow> world \<Rightarrow> bool result" where
  "runCase env ri ae isFinalAttempt c w =
     (let w1 = Logs_add \<lparr>logSource = ''test()'', logText = testDesc c, severity = Info\<rparr> w;
          w2 = emit [LogProgress (''[test] '' @ testDesc c), CallTestFn (testDesc c)] w1
      in case testFn c (logs w2) of (b, l) \<Rightarrow>
        (let w3 = w2\<lparr>logs := l\<rparr> in
         case caught (runTest env b (testFunctionTimeout ri)) of
           None \<Rightarrow> Hang w3
         | Some err \<Rightarrow>
            (let w4 = emit [ProgressDone (truthy err)] w3 in
             case callHook (AfterEach (truthy err)) (ae (truthy err)) w4 of
               (Some v, w5) \<Rightarrow> Throw (Raised v) w5
             | (None, w5) \<Rightarrow>
                (let failOnWarning = \<not> doNotFailOnWarning ri;
                     hasErrorLog = hasFailLogs failOnWarning (logs w5);
                     isFailure = (truthy err \<or> hasErrorLog)
                 in if isFailure then
                      (if truthy err then
                         Return True (logFailure err
                           (''the test '' @ dquote @ testDesc c @ dquote @ '' threw an error'')
                           isFinalAttempt w5)
                       else if hasErrorLog then
                         Return True (logFailure None
                           (getErrorType failOnWarning @ '' occurred while running the test ''
                              @ dquote @ testDesc c @ dquote)
                           isFinalAttempt w5)
                       else Throw AssertionFailed w5)
                    else Return False w5))))"

text \<open>The loop of \<^verbatim>\<open>runTests\<close>, lines 150 to 186.\<close>

fun runCases :: "env \<Rightarrow> runInfo \<Rightarrow> (bool \<Rightarrow> hook) \<Rightarrow> bool \<Rightarrow> testcase list \<Rightarrow> world \<Rightarrow> bool result" where
  "runCases env ri ae isFinalAttempt [] w = Return True w"
| "runCases env ri ae isFinalAttempt (c # cs) w =
     (case runCase env ri ae isFinalAttempt c w of
        Return isFailure w' \<Rightarrow>
          (if isFailure then Return False w'
           else runCases env ri ae isFinalAttempt cs (clearLogs w'))
      | Exit n w' \<Rightarrow> Exit n w'
      | Throw e w' \<Rightarrow> Throw e w'
      | Hang w' \<Rightarrow> Hang w')"

text \<open>\<^verbatim>\<open>runTests\<close>, lines 144 to 187.\<close>

definition runTests :: "env \<Rightarrow> testInfo \<Rightarrow> bool \<Rightarrow> world \<Rightarrow> bool result" where
  "runTests env ti isFinalAttempt w =
     (case runInfo ti of
        None \<Rightarrow> Throw AssertionFailed w
      | Some ri \<Rightarrow>
         (case afterEach ti of
            None \<Rightarrow> Throw AssertionFailed w
          | Some ae \<Rightarrow>
             (case tests ti of
                None \<Rightarrow> Throw AssertionFailed w
              | Some cs \<Rightarrow> runCases env ri ae isFinalAttempt cs w)))"

section \<open>The per-file executor\<close>

text \<open>\<^verbatim>\<open>assertSkipUsage\<close>, lines 229 to 239: the error it throws, if any.\<close>

definition assertSkipUsage :: "testInfo \<Rightarrow> error option" where
  "assertSkipUsage ti =
     (if skipped ti = None then Some AssertionFailed
      else if runInfo ti \<noteq> None then Some (UsageError ''You cannot call run() after calling skip()'')
      else if tests ti \<noteq> None then Some (UsageError ''You cannot call test() after calling skip()'')
      else None)"

text \<open>\<^verbatim>\<open>abortMaybe\<close>, lines 100 to 104, followed by the rest \<open>k\<close> of the caller.\<close>

definition abortMaybe :: "env \<Rightarrow> bool \<Rightarrow> (world \<Rightarrow> 'a result) \<Rightarrow> world \<Rightarrow> 'a result" where
  "abortMaybe env isFinalAttempt k w =
     (if isFinalAttempt \<and> isParallelCI env then Exit 1 (emit [ProcessExit 1] w) else k w)"

text \<open>Lines 117 to 141 of \<^verbatim>\<open>runServerAndTests\<close>: the part after the server started.\<close>

definition runAndStop :: "env \<Rightarrow> testInfo \<Rightarrow> hook \<Rightarrow> bool \<Rightarrow> world \<Rightarrow> bool result" where
  "runAndStop env ti terminate isFinalAttempt w =
     (case runTests env ti isFinalAttempt w of
        Return success w1 \<Rightarrow>
          (case callHook TerminateServer terminate w1 of
             (Some v, w2) \<Rightarrow> Throw (Raised v) w2
           | (None, w2) \<Rightarrow>
              (let w3 = emit [PageClose] w2;
                   failOnWarning = True;
                   failedAtStop = (success \<and> hasFailLogs failOnWarning (logs w3) \<and> \<not> isWindows env);
                   w4 = (if failedAtStop
                         then logFailure None
                                (getErrorType failOnWarning @ '' occurred during server termination'')
                                isFinalAttempt w3
                         else w3);
                   success' = (success \<and> \<not> failedAtStop)
               in if success' then Return True (clearLogs (emit [LogPass] w4))
                  else abortMaybe env isFinalAttempt (\<lambda>w5. Return False (clearLogs w5)) w4))
      | Exit n w1 \<Rightarrow> Exit n w1
      | Throw e w1 \<Rightarrow> Throw e w1
      | Hang w1 \<Rightarrow> Hang w1)"

text \<open>\<^verbatim>\<open>runServerAndTests\<close>, lines 83 to 142.\<close>

definition runServerAndTests :: "env \<Rightarrow> testInfo \<Rightarrow> bool \<Rightarrow> world \<Rightarrow> bool result" where
  "runServerAndTests env ti isSecondAttempt w =
     (case skipped ti of
        Some reason \<Rightarrow>
          (case assertSkipUsage ti of
             Some e \<Rightarrow> Throw e w
           | None \<Rightarrow> Return True (emit [LogWarn reason] w))
      | None \<Rightarrow>
         (case runInfo ti of
            None \<Rightarrow> Throw AssertionFailed w
          | Some ri \<Rightarrow>
             (case startServer ti of
                None \<Rightarrow> Throw AssertionFailed w
              | Some start \<Rightarrow>
                 (case terminateServer ti of
                    None \<Rightarrow> Throw AssertionFailed w
                  | Some terminate \<Rightarrow>
                     (let isFinalAttempt = (isSecondAttempt \<or> \<not> isFlaky ri);
                          w1 = emit [NewPage] w
                      in case callHook StartServer start w1 of
                           (Some err, w2) \<Rightarrow>
                             abortMaybe env isFinalAttempt (\<lambda>w3. Return False w3)
                               (logFailure (Some err)
                                  ''an error occurred while starting the server''
                                  isFinalAttempt w2)
                         | (None, w2) \<Rightarrow> runAndStop env ti terminate isFinalAttempt w2)))))"

section \<open>Building and loading one file\<close>

definition endsWith :: "string \<Rightarrow> string \<Rightarrow> bool" where
  "endsWith s suf = suffix suf s"

text \<open>\<^verbatim>\<open>String.prototype.replace\<close> with a string pattern replaces the first occurrence.\<close>

fun replaceFirst :: "string \<Rightarrow> string \<Rightarrow> string \<Rightarrow> string" where
  "replaceFirst pat rep [] = (if pat = [] then rep else [])"
| "replaceFirst pat rep (c # cs) =
     (if prefix pat (c # cs) then rep @ drop (length pat) (c # cs)
      else c # replaceFirst pat rep cs)"

text \<open>\<^verbatim>\<open>buildAndTest\<close>, lines 67 to 81.\<close>

definition buildAndTest :: "env \<Rightarrow> loader \<Rightarrow> string \<Rightarrow> bool \<Rightarrow> world \<Rightarrow> bool result" where
  "buildAndTest env ld testFile isSecondAttempt w =
     (if \<not> endsWith testFile ''.ts'' then Throw AssertionFailed w
      else
        (let testFileJs = replaceFirst ''.ts'' ''.mjs'' testFile in
         if \<not> endsWith testFileJs ''.mjs'' then Throw AssertionFailed w
         else
           (let w1 = emit [BuildTs testFile testFileJs, SetCurrentTest (Some testFile),
                           Import testFileJs] w;
                w2 = (emit [CleanBuild] w1)\<lparr>loads := Suc (loads w1)\<rparr>
            in case ld testFile (loads w1) of
                 Inl v \<Rightarrow> Throw (Raised v) w2
               | Inr ti \<Rightarrow>
                  (case runServerAndTests env ti isSecondAttempt w2 of
                     Return success w3 \<Rightarrow> Return success (emit [SetCurrentTest None] w3)
                   | Exit n w3 \<Rightarrow> Exit n w3
                   | Throw e w3 \<Rightarrow> Throw e w3
                   | Hang w3 \<Rightarrow> Hang w3))))"

section \<open>The attempt scheduler\<close>

text \<open>
  Each of the two loops of \<^verbatim>\<open>runTestFiles\<close> (lines 46 to 51 and 57 to 62): the files
  still to run, and the list the failing ones are pushed to.
\<close>

fun attemptLoop :: "env \<Rightarrow> loader \<Rightarrow> bool \<Rightarrow> string list \<Rightarrow> string list \<Rightarrow> world \<Rightarrow> string list result" where
  "attemptLoop env ld isSecondAttempt [] failed w = Return failed w"
| "attemptLoop env ld isSecondAttempt (testFile # rest) failed w =
     (case buildAndTest env ld testFile isSecondAttempt w of
        Return success w' \<Rightarrow>
          attemptLoop env ld isSecondAttempt rest
            (if \<not> success then failed @ [testFile] else failed) w'
      | Exit n w' \<Rightarrow> Exit n w'
      | Throw e w' \<Rightarrow> Throw e w'
      | Hang w' \<Rightarrow> Hang w')"

text \<open>\<^verbatim>\<open>runTestFiles\<close>, lines 44 to 65.\<close>

definition runTestFiles :: "env \<Rightarrow> loader \<Rightarrow> string list \<Rightarrow> world \<Rightarrow> string list result" where
  "runTestFiles env ld testFiles w =
     (case attemptLoop env ld False testFiles [] w of
        Return failedFirstAttempt w1 \<Rightarrow>
          (if \<not> isCI env then Return failedFirstAttempt w1
           else attemptLoop env ld True failedFirstAttempt [] w1)
      | Exit n w1 \<Rightarrow> Exit n w1
      | Throw e w1 \<Rightarrow> Throw e w1
      | Hang w1 \<Rightarrow> Hang w1)"

section \<open>Observing a run\<close>

definition world_of :: "'a result \<Rightarrow> world" where
  "world_of r = (case r of Return x w \<Rightarrow> w | Exit n w \<Rightarrow> w | Throw e w \<Rightarrow> w | Hang w \<Rightarrow> w)"

text \<open>The files handed to the build step, in the order of the calls.\<close>

fun builtFile :: "event \<Rightarrow> string list" where
  "builtFile (BuildTs f js) = [f]"
| "builtFile ev = []"

definition builtFiles :: "event list \<Rightarrow> string list" where
  "builtFiles tr = concat (map builtFile tr)"

text \<open>
  The scheduler in the words of the specification: a pass runs every file of its input
  once, in order, and pairs it with the outcome of the per-file executor; the files still
  failing after a pass are those paired with a failure, in the order of the input.
\<close>

fun attemptAll :: "env \<Rightarrow> loader \<Rightarrow> bool \<Rightarrow> string list \<Rightarrow> world \<Rightarrow> (string \<times> bool) list result" where
  "attemptAll env ld isSecondAttempt [] w = Return [] w"
| "attemptAll env ld isSecondAttempt (f # fs) w =
     (case buildAndTest env ld f isSecondAttempt w of
        Return ok w1 \<Rightarrow>
          (case attemptAll env ld isSecondAttempt fs w1 of
             Return r w2 \<Rightarrow> Return ((f, ok) # r) w2
           | Exit n w2 \<Rightarrow> Exit n w2
           | Throw e w2 \<Rightarrow> Throw e w2
           | Hang w2 \<Rightarrow> Hang w2)
      | Exit n w1 \<Rightarrow> Exit n w1
      | Throw e w1 \<Rightarrow> Throw e w1
      | Hang w1 \<Rightarrow> Hang w1)"

definition stillFailing :: "(string \<times> bool) list \<Rightarrow> string list" where
  "stillFailing r = map fst (filter (\<lambda>p. \<not> snd p) r)"

text \<open>
  The log buffer as each iteration of the case loop finds it, before the marker entry of
  line 151 is added: the loop of \<open>runCases\<close> with the buffers collected.
\<close>

fun caseStartLogs :: "env \<Rightarrow> runInfo \<Rightarrow> (bool \<Rightarrow> hook) \<Rightarrow> bool \<Rightarrow> testcase list \<Rightarrow> world \<Rightarrow> log_entry list list" where
  "caseStartLogs env ri ae isFinalAttempt [] w = []"
| "caseStartLogs env ri ae isFinalAttempt (c # cs) w =
     logs w #
     (case runCase env ri ae isFinalAttempt c w of
        Return isFailure w' \<Rightarrow>
          (if isFailure then []
           else caseStartLogs env ri ae isFinalAttempt cs (clearLogs w'))
      | Exit n w' \<Rightarrow> []
      | Throw e w' \<Rightarrow> []
      | Hang w' \<Rightarrow> [])"

text \<open>
  The same for a whole file: the buffers the cases of a file find when
  \<open>runServerAndTests\<close> runs it, the first one being what the server start left.
\<close>

definition fileCaseStartLogs :: "env \<Rightarrow> testInfo \<Rightarrow> bool \<Rightarrow> world \<Rightarrow> log_entry list list" where
  "fileCaseStartLogs env ti isSecondAttempt w =
     (case (skipped ti, runInfo ti, startServer ti, terminateServer ti, afterEach ti, tests ti) of
        (None, Some ri, Some start, Some terminate, Some ae, Some cs) \<Rightarrow>
          (case callHook StartServer start (emit [NewPage] w) of
             (None, w2) \<Rightarrow> caseStartLogs env ri ae (isSecondAttempt \<or> \<not> isFlaky ri) cs w2
           | (Some err, w2) \<Rightarrow> [])
      | _ \<Rightarrow> [])"

text \<open>The failures reported by \<^verbatim>\<open>logFail\<close> in a sequence of calls.\<close>

fun isLogFail :: "event \<Rightarrow> bool" where
  "isLogFail (LogFail reason fin) = True"
| "isLogFail ev = False"

definition failCount :: "event list \<Rightarrow> nat" where
  "failCount tr = length (filter isLogFail tr)"

text \<open>An outcome that is a verdict, the exit of the circuit breaker, or a usage or
  invariant error.\<close>

definition contained :: "'a result \<Rightarrow> bool" where
  "contained r =
     (case r of
        Return x w \<Rightarrow> True
      | Exit n w \<Rightarrow> n = 1
      | Throw e w \<Rightarrow>
          (case e of AssertionFailed \<Rightarrow> True | UsageError m \<Rightarrow> True | Raised v \<Rightarrow> False)
      | Hang w \<Rightarrow> False)"




section \<open>Scenarios\<close>

text \<open>Concrete environments, hooks, cases and files on which the theorems are run.\<close>

definition envLocal :: env where
  "envLocal = \<lparr>isCI = False, isParallelCI = False, isWindows = False,
                humanizeTime = (\<lambda>ms. ''5 seconds'')\<rparr>"

definition envCI :: env where
  "envCI = \<lparr>isCI = True, isParallelCI = False, isWindows = False,
             humanizeTime = (\<lambda>ms. ''5 seconds'')\<rparr>"

definition envParallelCI :: env where
  "envParallelCI = \<lparr>isCI = True, isParallelCI = True, isWindows = False,
                     humanizeTime = (\<lambda>ms. ''5 seconds'')\<rparr>"

definition world0 :: world where
  "world0 = \<lparr>logs = [], trace = [], loads = 0\<rparr>"

definition quietHook :: hook where
  "quietHook l = (None, l)"

definition throwingHook :: "string \<Rightarrow> hook" where
  "throwingHook m l = (Some (Truthy m), l)"

definition emittingHook :: "log_entry \<Rightarrow> hook" where
  "emittingHook e l = (None, l @ [e])"

definition passingCase :: "string \<Rightarrow> testcase" where
  "passingCase d = \<lparr>testDesc = d, testFn = (\<lambda>l. (SettlesBeforeTimer Fulfils, l))\<rparr>"

definition rejectingCase :: "string \<Rightarrow> jsvalue \<Rightarrow> testcase" where
  "rejectingCase d v = \<lparr>testDesc = d, testFn = (\<lambda>l. (SettlesBeforeTimer (Rejects v), l))\<rparr>"

definition plainRun :: runInfo where
  "plainRun = \<lparr>isFlaky = False, testFunctionTimeout = 5000, doNotFailOnWarning = False\<rparr>"

definition skippedFile :: testInfo where
  "skippedFile = \<lparr>skipped = Some ''not supported here'', runInfo = None, tests = None,
                   startServer = None, terminateServer = None, afterEach = None\<rparr>"

definition passingFile :: testInfo where
  "passingFile = \<lparr>skipped = None, runInfo = Some plainRun, tests = Some [passingCase ''loads''],
                   startServer = Some quietHook, terminateServer = Some quietHook,
                   afterEach = Some (\<lambda>hasErrored. quietHook)\<rparr>"

definition flakyRun :: runInfo where
  "flakyRun = \<lparr>isFlaky = True, testFunctionTimeout = 5000, doNotFailOnWarning = False\<rparr>"

text \<open>A file marked flaky whose only case rejects or passes.\<close>

definition flakyFile :: "bool \<Rightarrow> testInfo" where
  "flakyFile ok =
     \<lparr>skipped = None, runInfo = Some flakyRun,
      tests = Some [if ok then passingCase ''clicks''
                    else rejectingCase ''clicks'' (Truthy ''no button'')],
      startServer = Some quietHook, terminateServer = Some quietHook,
      afterEach = Some (\<lambda>hasErrored. quietHook)\<rparr>"

text \<open>Scenario B of the specification: the second file fails when first loaded and
  passes when loaded again.\<close>

definition flakyLoader :: loader where
  "flakyLoader f n = (if f = ''a.test.ts'' then Inr passingFile else Inr (flakyFile (2 \<le> n)))"

definition flakyFirstAttempt :: "event list" where
  "flakyFirstAttempt =
     [BuildTs ''a.test.ts'' ''a.test.mjs'', SetCurrentTest (Some ''a.test.ts''),
      Import ''a.test.mjs'', CleanBuild, NewPage, StartServer, LogProgress ''[test] loads'',
      CallTestFn ''loads'', ProgressDone False, AfterEach False, TerminateServer, PageClose,
      LogPass, SetCurrentTest None,
      BuildTs ''b.test.ts'' ''b.test.mjs'', SetCurrentTest (Some ''b.test.ts''),
      Import ''b.test.mjs'', CleanBuild, NewPage, StartServer, LogProgress ''[test] clicks'',
      CallTestFn ''clicks'', ProgressDone True, AfterEach True,
      LogFail (''the test '' @ dquote @ ''clicks'' @ dquote @ '' threw an error'') False,
      LogError (Truthy ''no button''), LogErrorsAndWarnings, FlushLogs,
      TerminateServer, PageClose, SetCurrentTest None]"

definition flakySecondAttempt :: "event list" where
  "flakySecondAttempt =
     [BuildTs ''b.test.ts'' ''b.test.mjs'', SetCurrentTest (Some ''b.test.ts''),
      Import ''b.test.mjs'', CleanBuild, NewPage, StartServer, LogProgress ''[test] clicks'',
      CallTestFn ''clicks'', ProgressDone False, AfterEach False, TerminateServer, PageClose,
      LogPass, SetCurrentTest None]"

text \<open>Scenario D of the specification: the server start hook throws.\<close>

definition startFailsFile :: testInfo where
  "startFailsFile =
     \<lparr>skipped = None, runInfo = Some plainRun, tests = Some [passingCase ''loads''],
      startServer = Some (throwingHook ''port in use''), terminateServer = Some quietHook,
      afterEach = Some (\<lambda>hasErrored. quietHook)\<rparr>"

text \<open>Scenario E of the specification: every case passes and stopping the server leaves
  an entry of severity \<open>Error\<close> in the log.\<close>

definition noisyStopFile :: testInfo where
  "noisyStopFile =
     \<lparr>skipped = None, runInfo = Some plainRun, tests = Some [passingCase ''loads''],
      startServer = Some quietHook,
      terminateServer = Some (emittingHook
         \<lparr>logSource = ''stderr'', logText = ''killed'', severity = Error\<rparr>),
      afterEach = Some (\<lambda>hasErrored. quietHook)\<rparr>"

text \<open>A file that disables fail-on-warning; its case and its stop hook each leave a
  warning in the log.\<close>

definition lenientRun :: runInfo where
  "lenientRun = \<lparr>isFlaky = False, testFunctionTimeout = 5000, doNotFailOnWarning = True\<rparr>"

definition warningEntry :: log_entry where
  "warningEntry = \<lparr>logSource = ''Browser Warning'', logText = ''deprecated'', severity = Warning\<rparr>"

definition warningCase :: "string \<Rightarrow> testcase" where
  "warningCase d =
     \<lparr>testDesc = d, testFn = (\<lambda>l. (SettlesBeforeTimer Fulfils, l @ [warningEntry]))\<rparr>"

definition lenientFile :: "testcase \<Rightarrow> testInfo" where
  "lenientFile c =
     \<lparr>skipped = None, runInfo = Some lenientRun, tests = Some [c],
      startServer = Some quietHook, terminateServer = Some (emittingHook warningEntry),
      afterEach = Some (\<lambda>hasErrored. quietHook)\<rparr>"

text \<open>A file whose first case rejects with a falsy value, as the body
  \<^verbatim>\<open>async () => { await Promise.reject() }\<close> does.\<close>

definition falsyFile :: testInfo where
  "falsyFile =
     \<lparr>skipped = None, runInfo = Some plainRun,
      tests = Some [rejectingCase ''first'' Falsy, passingCase ''second''],
      startServer = Some quietHook, terminateServer = Some quietHook,
      afterEach = Some (\<lambda>hasErrored. quietHook)\<rparr>"

text \<open>A file whose server prints a line while it starts.\<close>

definition listeningEntry :: log_entry where
  "listeningEntry = \<lparr>logSource = ''stdout'', logText = ''listening'', severity = Info\<rparr>"

definition chattyStartFile :: testInfo where
  "chattyStartFile =
     \<lparr>skipped = None, runInfo = Some plainRun,
      tests = Some [passingCase ''first'', passingCase ''second''],
      startServer = Some (emittingHook listeningEntry), terminateServer = Some quietHook,
      afterEach = Some (\<lambda>hasErrored. quietHook)\<rparr>"

text \<open>Intermediate states of the runs above.\<close>

definition startedWorld :: world where
  "startedWorld = \<lparr>logs = [], trace = [NewPage, StartServer], loads = 0\<rparr>"

definition clicksFailedWorld :: world where
  "clicksFailedWorld =
     \<lparr>logs = [],
      trace = [NewPage, StartServer, LogProgress ''[test] clicks'', CallTestFn ''clicks'',
               ProgressDone True, AfterEach True,
               LogFail (''the test '' @ dquote @ ''clicks'' @ dquote @ '' threw an error'') False,
               LogError (Truthy ''no button''), LogErrorsAndWarnings, FlushLogs],
      loads = 0\<rparr>"

definition casePassedWorld :: "string \<Rightarrow> world" where
  "casePassedWorld d =
     \<lparr>logs = [],
      trace = [NewPage, StartServer, LogProgress (''[test] '' @ d), CallTestFn d,
               ProgressDone False, AfterEach False],
      loads = 0\<rparr>"

definition throwsFailedWorld :: world where
  "throwsFailedWorld =
     \<lparr>logs = [],
      trace = [NewPage, StartServer, LogProgress ''[test] throws'', CallTestFn ''throws'',
               ProgressDone True, AfterEach True,
               LogFail (''the test '' @ dquote @ ''throws'' @ dquote @ '' threw an error'') True,
               LogError (Truthy ''boom''), LogErrorsAndWarnings, FlushLogs],
      loads = 0\<rparr>"

text \<open>Scenario C of the specification: a file that is not flaky and whose only case
  throws, followed by a file that would pass.\<close>

definition brokenFile :: testInfo where
  "brokenFile =
     \<lparr>skipped = None, runInfo = Some plainRun,
      tests = Some [rejectingCase ''clicks'' (Truthy ''no button'')],
      startServer = Some quietHook, terminateServer = Some quietHook,
      afterEach = Some (\<lambda>hasErrored. quietHook)\<rparr>"

definition brokenLoader :: loader where
  "brokenLoader f n = (if f = ''a.test.ts'' then Inr brokenFile else Inr passingFile)"

definition brokenTrace :: "event list" where
  "brokenTrace =
     [BuildTs ''a.test.ts'' ''a.test.mjs'', SetCurrentTest (Some ''a.test.ts''),
      Import ''a.test.mjs'', CleanBuild, NewPage, StartServer, LogProgress ''[test] clicks'',
      CallTestFn ''clicks'', ProgressDone True, AfterEach True,
      LogFail (''the test '' @ dquote @ ''clicks'' @ dquote @ '' threw an error'') True,
      LogError (Truthy ''no button''), LogErrorsAndWarnings, FlushLogs,
      TerminateServer, PageClose]"



section \<open>Basic facts\<close>

lemma emit_simps [simp]:
  "trace (emit evs w) = trace w @ evs"
  "logs (emit evs w) = logs w"
  "loads (emit evs w) = loads w"
  by (simp_all add: emit_def)

lemma clearLogs_simps [simp]:
  "trace (clearLogs w) = trace w"
  "logs (clearLogs w) = []"
  "loads (clearLogs w) = loads w"
  by (simp_all add: clearLogs_def)

lemma Logs_add_simps [simp]:
  "trace (Logs_add e w) = trace w"
  "logs (Logs_add e w) = logs w @ [e]"
  "loads (Logs_add e w) = loads w"
  by (simp_all add: Logs_add_def)

lemma logFailure_logs [simp]: "logs (logFailure err reason fin w) = []"
  by (simp add: logFailure_def flushLogs_def Let_def)

lemma logFailure_loads [simp]: "loads (logFailure err reason fin w) = loads w"
  by (simp add: logFailure_def flushLogs_def logErrorsAndWarnings_def Let_def
      split: option.splits jsvalue.splits)

lemma logFailure_trace:
  "trace (logFailure err reason fin w) =
     trace w @ LogFail reason fin # (if truthy err then [LogError (the err)] else [])
       @ [LogErrorsAndWarnings, FlushLogs]"
  by (cases err rule: truthy.cases)
     (simp_all add: logFailure_def flushLogs_def logErrorsAndWarnings_def Let_def)

lemma callHook_trace: "callHook ev h w = (r, w') \<Longrightarrow> trace w' = trace w @ [ev]"
  by (auto simp: callHook_def split: prod.splits)

lemma callHook_loads: "callHook ev h w = (r, w') \<Longrightarrow> loads w' = loads w"
  by (auto simp: callHook_def split: prod.splits)

lemma caught_runTest:
  "caught (runTest env b ms) =
     Some (case b of
             ThrowsSync v \<Rightarrow> Some v
           | SettlesBeforeTimer Fulfils \<Rightarrow> None
           | SettlesBeforeTimer (Rejects v) \<Rightarrow> Some v
           | SettlesAfterTimer s \<Rightarrow> Some (timeoutError env ms)
           | NeverSettles \<Rightarrow> Some (timeoutError env ms))"
  by (simp add: caught_def runTest_def timerFires_def awaitedSettles_def clearTimeout_def
        resolve_def reject_def Let_def split: body.splits settle.splits)

section \<open>Skipped files\<close>

lemma runServerAndTests_skipped:
  assumes "skipped ti = Some reason"
  shows "runServerAndTests env ti isSecondAttempt w =
           (if runInfo ti = None \<and> tests ti = None
            then Return True (emit [LogWarn reason] w)
            else Throw (UsageError
                   (if runInfo ti \<noteq> None then ''You cannot call run() after calling skip()''
                    else ''You cannot call test() after calling skip()'')) w)"
  using assms by (simp add: runServerAndTests_def assertSkipUsage_def)

text \<open>
  Claim C7. A file that declared \<^verbatim>\<open>skip()\<close> never runs a case: when it declared nothing
  else, the per-file executor returns a pass and the only thing it does is to print the
  reason of the skip; when it also called \<^verbatim>\<open>run()\<close> or \<^verbatim>\<open>test()\<close>, the executor throws
  a usage error and does nothing else.
\<close>

theorem skipped_file_passes_or_usage_error:
  assumes "skipped ti = Some reason"
  shows "runServerAndTests env ti isSecondAttempt w =
           (if runInfo ti = None \<and> tests ti = None
            then Return True (emit [LogWarn reason] w)
            else Throw (UsageError
                   (if runInfo ti \<noteq> None then ''You cannot call run() after calling skip()''
                    else ''You cannot call test() after calling skip()'')) w)"
  using assms by (simp add: runServerAndTests_def assertSkipUsage_def)

theorem skipped_file_passes_or_usage_error_witness:
  "skipped skippedFile = Some ''not supported here'' \<and>
   runServerAndTests envLocal skippedFile False world0 =
     Return True \<lparr>logs = [], trace = [LogWarn ''not supported here''], loads = 0\<rparr>"
proof -
  have h: "skipped skippedFile = Some ''not supported here''"
    by (simp add: skippedFile_def)
  show ?thesis
    using h skipped_file_passes_or_usage_error [OF h, of envLocal False world0]
    by (simp add: skippedFile_def world0_def emit_def)
qed

section \<open>The build step is called for the files of each pass\<close>

lemma builtFiles_append [simp]: "builtFiles (xs @ ys) = builtFiles xs @ builtFiles ys"
  by (simp add: builtFiles_def)

lemma builtFiles_Nil [simp]: "builtFiles [] = []"
  by (simp add: builtFiles_def)

lemma builtFiles_Cons [simp]: "builtFiles (e # es) = builtFile e @ builtFiles es"
  by (simp add: builtFiles_def)

lemma built_logFailure [simp]:
  "builtFiles (trace (logFailure err reason fin w)) = builtFiles (trace w)"
  by (simp add: logFailure_trace)

lemma built_runCase:
  "builtFiles (trace (world_of (runCase env ri ae fin c w))) = builtFiles (trace w)"
  by (auto simp: runCase_def Let_def caught_runTest world_of_def callHook_def
      split: prod.splits option.splits)

lemma built_runCases:
  "builtFiles (trace (world_of (runCases env ri ae fin cs w))) = builtFiles (trace w)"
proof (induction cs arbitrary: w)
  case Nil
  show ?case by (simp add: world_of_def)
next
  case (Cons c cs)
  show ?case
  proof (cases "runCase env ri ae fin c w")
    case (Return isFailure w')
    with built_runCase [of env ri ae fin c w] Cons.IH [of "clearLogs w'"]
    show ?thesis by (simp add: world_of_def)
  qed (use built_runCase [of env ri ae fin c w] in \<open>simp_all add: world_of_def\<close>)
qed

lemma built_runTests:
  "builtFiles (trace (world_of (runTests env ti fin w))) = builtFiles (trace w)"
  using built_runCases
  by (auto simp: runTests_def world_of_def split: option.splits)

lemma built_runAndStop:
  "builtFiles (trace (world_of (runAndStop env ti terminate fin w))) = builtFiles (trace w)"
  using built_runTests [of env ti fin w]
  by (auto simp: runAndStop_def Let_def world_of_def abortMaybe_def callHook_def
      split: result.splits prod.splits option.splits)

lemma built_runServerAndTests:
  "builtFiles (trace (world_of (runServerAndTests env ti b w))) = builtFiles (trace w)"
proof -
  have "builtFiles (trace (world_of (runAndStop env ti terminate fin w2))) = builtFiles (trace w)"
    if "callHook StartServer start (emit [NewPage] w) = (None, w2)" for terminate fin w2 start
    using that built_runAndStop [of env ti terminate fin w2] by (simp add: callHook_trace)
  then show ?thesis
    by (auto simp: runServerAndTests_def Let_def world_of_def abortMaybe_def callHook_trace
      split: option.splits prod.splits)
qed

lemma built_buildAndTest:
  assumes "buildAndTest env ld f a w = Return ok w'"
  shows "builtFiles (trace w') = builtFiles (trace w) @ [f]"
proof -
  define js where "js = replaceFirst ''.ts'' ''.mjs'' f"
  define w2 where
    "w2 = (emit [CleanBuild] (emit [BuildTs f js, SetCurrentTest (Some f), Import js] w))
            \<lparr>loads := Suc (loads w)\<rparr>"
  from assms obtain ti w3 where
    run: "runServerAndTests env ti a w2 = Return ok w3" and
    w': "w' = emit [SetCurrentTest None] w3"
    by (auto simp: buildAndTest_def Let_def js_def w2_def
        split: if_splits sum.splits result.splits)
  from built_runServerAndTests [of env ti a w2] run
  have "builtFiles (trace w3) = builtFiles (trace w2)"
    by (simp add: world_of_def)
  with w' show ?thesis by (simp add: w2_def)
qed

section \<open>The two passes of the scheduler\<close>

text \<open>The loop that pushes failing files computes the files a pass leaves failing.\<close>

lemma attemptLoop_attemptAll:
  "attemptLoop env ld a fs acc w =
     (case attemptAll env ld a fs w of
        Return r w' \<Rightarrow> Return (acc @ stillFailing r) w'
      | Exit n w' \<Rightarrow> Exit n w'
      | Throw e w' \<Rightarrow> Throw e w'
      | Hang w' \<Rightarrow> Hang w')"
  by (induction fs arbitrary: acc w) (auto simp: stillFailing_def split: result.splits)

lemma attemptAll_files: "attemptAll env ld a fs w = Return r w' \<Longrightarrow> map fst r = fs"
  by (induction fs arbitrary: r w) (auto split: result.splits)

lemma attemptAll_built:
  "attemptAll env ld a fs w = Return r w' \<Longrightarrow> builtFiles (trace w') = builtFiles (trace w) @ fs"
  by (induction fs arbitrary: r w) (auto split: result.splits dest!: built_buildAndTest)

text \<open>
  Claim C1. When \<open>runTestFiles\<close> returns, pass 1 has run every discovered file once, in
  discovery order, each paired with its outcome. Outside a continuous-integration
  environment nothing else runs and the files returned are those that failed pass 1, in
  their original order. In a continuous-integration environment pass 2 has run exactly
  the files that failed pass 1, in that order, as second attempts, and the files returned
  are those that failed pass 2. The calls of the build step are those of the files of
  pass 1 followed, in continuous integration, by those of the files that failed it.
\<close>

theorem runTestFiles_two_pass:
  assumes "runTestFiles env ld testFiles w = Return failed w'"
  shows "\<exists>pass1 w1.
           attemptAll env ld False testFiles w = Return pass1 w1 \<and> map fst pass1 = testFiles \<and>
           (if isCI env
            then \<exists>pass2. attemptAll env ld True (stillFailing pass1) w1 = Return pass2 w' \<and>
                   map fst pass2 = stillFailing pass1 \<and> failed = stillFailing pass2
            else w' = w1 \<and> failed = stillFailing pass1) \<and>
           builtFiles (trace w') =
             builtFiles (trace w) @ testFiles @ (if isCI env then stillFailing pass1 else [])"
proof -
  from assms obtain pass1 w1 where p1: "attemptAll env ld False testFiles w = Return pass1 w1"
    by (auto simp: runTestFiles_def attemptLoop_attemptAll split: result.splits)
  note f1 = attemptAll_files [OF p1] and b1 = attemptAll_built [OF p1]
  show ?thesis
  proof (cases "isCI env")
    case False
    with assms p1 have "w' = w1" "failed = stillFailing pass1"
      by (simp_all add: runTestFiles_def attemptLoop_attemptAll)
    with p1 f1 b1 False show ?thesis by simp
  next
    case True
    with assms p1 obtain pass2 where
      p2: "attemptAll env ld True (stillFailing pass1) w1 = Return pass2 w'"
      and f: "failed = stillFailing pass2"
      by (auto simp: runTestFiles_def attemptLoop_attemptAll split: result.splits)
    note f2 = attemptAll_files [OF p2] and b2 = attemptAll_built [OF p2]
    from p1 f1 b1 p2 f2 b2 f True show ?thesis by simp
  qed
qed

theorem runTestFiles_two_pass_witness:
  "runTestFiles envCI flakyLoader [''a.test.ts'', ''b.test.ts''] world0 =
     Return [] \<lparr>logs = [], trace = flakyFirstAttempt @ flakySecondAttempt, loads = 3\<rparr> \<and>
   attemptAll envCI flakyLoader False [''a.test.ts'', ''b.test.ts''] world0 =
     Return [(''a.test.ts'', True), (''b.test.ts'', False)]
       \<lparr>logs = [], trace = flakyFirstAttempt, loads = 2\<rparr> \<and>
   builtFiles (flakyFirstAttempt @ flakySecondAttempt) = [''a.test.ts'', ''b.test.ts'', ''b.test.ts'']"
proof -
  have h: "runTestFiles envCI flakyLoader [''a.test.ts'', ''b.test.ts''] world0 =
     Return [] \<lparr>logs = [], trace = flakyFirstAttempt @ flakySecondAttempt, loads = 3\<rparr>"
    by code_simp
  have p1: "attemptAll envCI flakyLoader False [''a.test.ts'', ''b.test.ts''] world0 =
     Return [(''a.test.ts'', True), (''b.test.ts'', False)]
       \<lparr>logs = [], trace = flakyFirstAttempt, loads = 2\<rparr>"
    by code_simp
  have ci: "isCI envCI" by (simp add: envCI_def)
  from runTestFiles_two_pass [OF h] p1 ci
  have "builtFiles (flakyFirstAttempt @ flakySecondAttempt) =
          builtFiles (trace world0) @ [''a.test.ts'', ''b.test.ts''] @ [''b.test.ts'']"
    by (auto simp: stillFailing_def)
  with h p1 show ?thesis by (simp add: world0_def)
qed

section \<open>The per-file executor by phases\<close>

lemma runServerAndTests_started:
  assumes "skipped ti = None" "runInfo ti = Some ri" "startServer ti = Some start"
    "terminateServer ti = Some terminate"
    "callHook StartServer start (emit [NewPage] w) = (None, w2)"
  shows "runServerAndTests env ti isSecondAttempt w =
           runAndStop env ti terminate (isSecondAttempt \<or> \<not> isFlaky ri) w2"
  using assms by (simp add: runServerAndTests_def)

lemma runServerAndTests_start_failed:
  assumes "skipped ti = None" "runInfo ti = Some ri" "startServer ti = Some start"
    "terminateServer ti = Some terminate"
    "callHook StartServer start (emit [NewPage] w) = (Some err, w2)"
  shows "runServerAndTests env ti isSecondAttempt w =
           abortMaybe env (isSecondAttempt \<or> \<not> isFlaky ri) (\<lambda>w3. Return False w3)
             (logFailure (Some err) ''an error occurred while starting the server''
                (isSecondAttempt \<or> \<not> isFlaky ri) w2)"
  using assms by (simp add: runServerAndTests_def Let_def)

lemma runAndStop_stopped:
  assumes "runTests env ti fin w = Return success w1"
    "callHook TerminateServer terminate w1 = (None, w2)"
  shows "runAndStop env ti terminate fin w =
           (if success \<and> hasFailLogs True (logs w2) \<and> \<not> isWindows env
            then abortMaybe env fin (\<lambda>w5. Return False (clearLogs w5))
                   (logFailure None ''error(s)/warning(s) occurred during server termination''
                      fin (emit [PageClose] w2))
            else if success then Return True (clearLogs (emit [PageClose, LogPass] w2))
            else abortMaybe env fin (\<lambda>w5. Return False (clearLogs w5)) (emit [PageClose] w2))"
  using assms by (simp add: runAndStop_def Let_def getErrorType_def emit_def)

section \<open>Stopping the server and closing the page\<close>

text \<open>
  Claim C2, as amended. For a file that declared \<^verbatim>\<open>run()\<close>: when the server start hook
  returns, then however the case loop ends (every case passed, or one failed by throwing,
  by timing out or by log entries), the stop hook is called next, and when it returns the
  page is closed right after it; neither happens a second time. When the server start
  hook throws, the file fails, no case body is called and the stop hook is not called.
\<close>

theorem stop_then_close_once_started:
  assumes "skipped ti = None" "runInfo ti = Some ri" "startServer ti = Some start"
    "terminateServer ti = Some terminate"
  shows "(callHook StartServer start (emit [NewPage] w) = (None, w2) \<and>
          runTests env ti (isSecondAttempt \<or> \<not> isFlaky ri) w2 = Return success w3 \<and>
          callHook TerminateServer terminate w3 = (None, w4) \<longrightarrow>
            (\<exists>rest. trace (world_of (runServerAndTests env ti isSecondAttempt w)) =
                      trace w3 @ [TerminateServer, PageClose] @ rest \<and>
                    TerminateServer \<notin> set rest \<and> PageClose \<notin> set rest)) \<and>
         (callHook StartServer start (emit [NewPage] w) = (Some err, w2) \<longrightarrow>
            (\<exists>rest. trace (world_of (runServerAndTests env ti isSecondAttempt w)) =
                      trace w @ [NewPage, StartServer] @ rest \<and>
                    TerminateServer \<notin> set rest \<and> (\<forall>d. CallTestFn d \<notin> set rest)) \<and>
            (\<forall>w'. runServerAndTests env ti isSecondAttempt w \<noteq> Return True w'))"
proof (rule conjI; rule impI)
  assume a: "callHook StartServer start (emit [NewPage] w) = (None, w2) \<and>
          runTests env ti (isSecondAttempt \<or> \<not> isFlaky ri) w2 = Return success w3 \<and>
          callHook TerminateServer terminate w3 = (None, w4)"
  then have "callHook TerminateServer terminate w3 = (None, w4)" by simp
  then have t4: "trace w4 = trace w3 @ [TerminateServer]"
    by (rule callHook_trace)
  from a assms have eq: "runServerAndTests env ti isSecondAttempt w =
      runAndStop env ti terminate (isSecondAttempt \<or> \<not> isFlaky ri) w2"
    by (simp add: runServerAndTests_started)
  show "\<exists>rest. trace (world_of (runServerAndTests env ti isSecondAttempt w)) =
                      trace w3 @ [TerminateServer, PageClose] @ rest \<and>
                    TerminateServer \<notin> set rest \<and> PageClose \<notin> set rest"
    unfolding eq using a t4
    by (auto simp: runAndStop_stopped abortMaybe_def world_of_def logFailure_trace)
next
  assume a: "callHook StartServer start (emit [NewPage] w) = (Some err, w2)"
  from callHook_trace [OF a] have t2: "trace w2 = trace w @ [NewPage, StartServer]"
    by simp
  note eq = runServerAndTests_start_failed [OF assms a]
  show "(\<exists>rest. trace (world_of (runServerAndTests env ti isSecondAttempt w)) =
                      trace w @ [NewPage, StartServer] @ rest \<and>
                    TerminateServer \<notin> set rest \<and> (\<forall>d. CallTestFn d \<notin> set rest)) \<and>
            (\<forall>w'. runServerAndTests env ti isSecondAttempt w \<noteq> Return True w')"
    unfolding eq using t2
    by (auto simp: abortMaybe_def world_of_def logFailure_trace)
qed

text \<open>Scenario D: the start hook throws; the file fails, and neither the stop hook nor
  the closing of the page is among the calls made.\<close>

theorem start_failure_skips_stop_and_close:
  "runServerAndTests envLocal startFailsFile False world0 =
     Return False
       \<lparr>logs = [],
        trace = [NewPage, StartServer,
                 LogFail ''an error occurred while starting the server'' True,
                 LogError (Truthy ''port in use''), LogErrorsAndWarnings, FlushLogs],
        loads = 0\<rparr> \<and>
   TerminateServer \<notin> set (trace (world_of (runServerAndTests envLocal startFailsFile False world0))) \<and>
   PageClose \<notin> set (trace (world_of (runServerAndTests envLocal startFailsFile False world0)))"
  by code_simp

theorem stop_then_close_once_started_witness:
  "runTests envLocal (flakyFile False) False startedWorld = Return False clicksFailedWorld \<and>
   (\<exists>rest. trace (world_of (runServerAndTests envLocal (flakyFile False) False world0)) =
             trace clicksFailedWorld @ [TerminateServer, PageClose] @ rest \<and>
           TerminateServer \<notin> set rest \<and> PageClose \<notin> set rest) \<and>
   callHook StartServer (throwingHook ''port in use'') (emit [NewPage] world0) =
     (Some (Truthy ''port in use''), startedWorld) \<and>
   (\<exists>rest. trace (world_of (runServerAndTests envLocal startFailsFile False world0)) =
             trace world0 @ [NewPage, StartServer] @ rest \<and>
           TerminateServer \<notin> set rest \<and> (\<forall>d. CallTestFn d \<notin> set rest)) \<and>
   (\<forall>w'. runServerAndTests envLocal startFailsFile False world0 \<noteq> Return True w')"
proof -
  have f: "skipped (flakyFile False) = None" "runInfo (flakyFile False) = Some flakyRun"
    "startServer (flakyFile False) = Some quietHook"
    "terminateServer (flakyFile False) = Some quietHook"
    by (simp_all add: flakyFile_def)
  have s: "callHook StartServer quietHook (emit [NewPage] world0) = (None, startedWorld)"
    by code_simp
  have r: "runTests envLocal (flakyFile False) (False \<or> \<not> isFlaky flakyRun) startedWorld =
             Return False clicksFailedWorld"
    by code_simp
  have t: "callHook TerminateServer quietHook clicksFailedWorld =
             (None, emit [TerminateServer] clicksFailedWorld)"
    by code_simp
  have g: "skipped startFailsFile = None" "runInfo startFailsFile = Some plainRun"
    "startServer startFailsFile = Some (throwingHook ''port in use'')"
    "terminateServer startFailsFile = Some quietHook"
    by (simp_all add: startFailsFile_def)
  have s': "callHook StartServer (throwingHook ''port in use'') (emit [NewPage] world0) =
              (Some (Truthy ''port in use''), startedWorld)"
    by code_simp
  have r': "runTests envLocal (flakyFile False) False startedWorld = Return False clicksFailedWorld"
    using r by (simp add: flakyRun_def)
  from stop_then_close_once_started [OF f, where w = world0 and ?w2.0 = startedWorld
      and env = envLocal and isSecondAttempt = False and success = False
      and ?w3.0 = clicksFailedWorld and ?w4.0 = "emit [TerminateServer] clicksFailedWorld"]
    s r t
  have a: "\<exists>rest. trace (world_of (runServerAndTests envLocal (flakyFile False) False world0)) =
             trace clicksFailedWorld @ [TerminateServer, PageClose] @ rest \<and>
           TerminateServer \<notin> set rest \<and> PageClose \<notin> set rest"
    by blast
  from stop_then_close_once_started [OF g, where w = world0 and ?w2.0 = startedWorld
      and env = envLocal and isSecondAttempt = False and err = "Truthy ''port in use''"] s'
  have b: "(\<exists>rest. trace (world_of (runServerAndTests envLocal startFailsFile False world0)) =
             trace world0 @ [NewPage, StartServer] @ rest \<and>
           TerminateServer \<notin> set rest \<and> (\<forall>d. CallTestFn d \<notin> set rest)) \<and>
       (\<forall>w'. runServerAndTests envLocal startFailsFile False world0 \<noteq> Return True w')"
    by blast
  from r' a s' b show ?thesis by blast
qed

section \<open>The log check after the server stopped\<close>

text \<open>
  Claim C4. When every case of a file passed and the stop hook returned, the log is
  checked: if it holds a disqualifying entry (an error or a warning) and the platform is
  not Windows, the failure is reported as having occurred during server termination and
  the file fails (or, on a final attempt in parallel CI, the process exits with status 1);
  otherwise the file passes.
\<close>

theorem post_stop_log_check:
  assumes "skipped ti = None" "runInfo ti = Some ri" "startServer ti = Some start"
    "terminateServer ti = Some terminate"
    "callHook StartServer start (emit [NewPage] w) = (None, w2)"
    "runTests env ti (isSecondAttempt \<or> \<not> isFlaky ri) w2 = Return True w3"
    "callHook TerminateServer terminate w3 = (None, w4)"
  shows "runServerAndTests env ti isSecondAttempt w =
           (if hasFailLogs True (logs w4) \<and> \<not> isWindows env
            then (if (isSecondAttempt \<or> \<not> isFlaky ri) \<and> isParallelCI env
                  then Exit 1 (emit [ProcessExit 1]
                         (logFailure None ''error(s)/warning(s) occurred during server termination''
                            (isSecondAttempt \<or> \<not> isFlaky ri) (emit [PageClose] w4)))
                  else Return False (clearLogs
                         (logFailure None ''error(s)/warning(s) occurred during server termination''
                            (isSecondAttempt \<or> \<not> isFlaky ri) (emit [PageClose] w4))))
            else Return True (clearLogs (emit [PageClose, LogPass] w4)))"
  using assms
  by (simp add: runServerAndTests_started runAndStop_stopped abortMaybe_def)

theorem post_stop_log_check_witness:
  "runTests envLocal noisyStopFile True startedWorld = Return True (casePassedWorld ''loads'') \<and>
   hasFailLogs True [\<lparr>logSource = ''stderr'', logText = ''killed'', severity = Error\<rparr>] \<and>
   runServerAndTests envLocal noisyStopFile False world0 =
     Return False
       \<lparr>logs = [],
        trace = trace (casePassedWorld ''loads'') @
                [TerminateServer, PageClose,
                 LogFail ''error(s)/warning(s) occurred during server termination'' True,
                 LogErrorsAndWarnings, FlushLogs],
        loads = 0\<rparr>"
proof -
  have f: "skipped noisyStopFile = None" "runInfo noisyStopFile = Some plainRun"
    "startServer noisyStopFile = Some quietHook"
    "terminateServer noisyStopFile = Some (emittingHook
         \<lparr>logSource = ''stderr'', logText = ''killed'', severity = Error\<rparr>)"
    by (simp_all add: noisyStopFile_def)
  have s: "callHook StartServer quietHook (emit [NewPage] world0) = (None, startedWorld)"
    by code_simp
  have r: "runTests envLocal noisyStopFile (False \<or> \<not> isFlaky plainRun) startedWorld =
             Return True (casePassedWorld ''loads'')"
    by code_simp
  have t: "callHook TerminateServer
             (emittingHook \<lparr>logSource = ''stderr'', logText = ''killed'', severity = Error\<rparr>)
             (casePassedWorld ''loads'') =
           (None, (emit [TerminateServer] (casePassedWorld ''loads''))
              \<lparr>logs := [\<lparr>logSource = ''stderr'', logText = ''killed'', severity = Error\<rparr>]\<rparr>)"
    by code_simp
  have r': "runTests envLocal noisyStopFile True startedWorld = Return True (casePassedWorld ''loads'')"
    using r by (simp add: plainRun_def)
  have h: "hasFailLogs True [\<lparr>logSource = ''stderr'', logText = ''killed'', severity = Error\<rparr>]"
    by code_simp
  have "runServerAndTests envLocal noisyStopFile False world0 =
     Return False
       \<lparr>logs = [],
        trace = trace (casePassedWorld ''loads'') @
                [TerminateServer, PageClose,
                 LogFail ''error(s)/warning(s) occurred during server termination'' True,
                 LogErrorsAndWarnings, FlushLogs],
        loads = 0\<rparr>"
    unfolding post_stop_log_check [OF f s r t] by code_simp
  with r' h show ?thesis by blast
qed

text \<open>
  Claim C10. The check after the server stopped counts warnings as failures whatever the
  file declared: for a file that disabled fail-on-warning, on a platform other than
  Windows, a warning in the log after every case passed makes the file fail, with the
  reason naming errors and warnings. When the case loop failed, the check is not made:
  after the stop hook only the page is closed (and the process exits, on a final attempt
  in parallel CI), whatever the log holds.
\<close>

theorem post_stop_check_fails_on_warning:
  assumes "skipped ti = None" "runInfo ti = Some ri" "startServer ti = Some start"
    "terminateServer ti = Some terminate"
    "doNotFailOnWarning ri"
    "callHook StartServer start (emit [NewPage] w) = (None, w2)"
    "runTests env ti (isSecondAttempt \<or> \<not> isFlaky ri) w2 = Return success w3"
    "callHook TerminateServer terminate w3 = (None, w4)"
    "\<not> isWindows env"
  shows "(success \<and> list_ex (\<lambda>e. severity e = Warning) (logs w4) \<longrightarrow>
            (\<forall>w'. runServerAndTests env ti isSecondAttempt w \<noteq> Return True w') \<and>
            LogFail ''error(s)/warning(s) occurred during server termination''
                (isSecondAttempt \<or> \<not> isFlaky ri)
              \<in> set (trace (world_of (runServerAndTests env ti isSecondAttempt w)))) \<and>
         (\<not> success \<longrightarrow>
            trace (world_of (runServerAndTests env ti isSecondAttempt w)) =
              trace w4 @ PageClose #
                (if (isSecondAttempt \<or> \<not> isFlaky ri) \<and> isParallelCI env then [ProcessExit 1] else []))"
proof -
  have w: "hasFailLogs True (logs w4)" if "list_ex (\<lambda>e. severity e = Warning) (logs w4)"
    using that by (auto simp: hasFailLogs_def disqualifying_def list_ex_iff)
  from assms have eq: "runServerAndTests env ti isSecondAttempt w =
      runAndStop env ti terminate (isSecondAttempt \<or> \<not> isFlaky ri) w2"
    by (simp add: runServerAndTests_started)
  show ?thesis
    unfolding eq using assms(7,8,9) w
    by (auto simp: runAndStop_stopped abortMaybe_def world_of_def logFailure_trace)
qed

theorem post_stop_check_fails_on_warning_witness:
  "doNotFailOnWarning lenientRun \<and>
   runTests envLocal (lenientFile (warningCase ''warns'')) True startedWorld =
     Return True (casePassedWorld ''warns'') \<and>
   (\<forall>w'. runServerAndTests envLocal (lenientFile (warningCase ''warns'')) False world0
          \<noteq> Return True w') \<and>
   LogFail ''error(s)/warning(s) occurred during server termination'' True
     \<in> set (trace (world_of
          (runServerAndTests envLocal (lenientFile (warningCase ''warns'')) False world0))) \<and>
   runTests envLocal (lenientFile (rejectingCase ''throws'' (Truthy ''boom''))) True startedWorld =
     Return False throwsFailedWorld \<and>
   trace (world_of (runServerAndTests envLocal
            (lenientFile (rejectingCase ''throws'' (Truthy ''boom''))) False world0)) =
     trace throwsFailedWorld @ [TerminateServer, PageClose]"
proof -
  have d: "doNotFailOnWarning lenientRun" "\<not> isWindows envLocal" "\<not> isParallelCI envLocal"
    "\<not> isFlaky lenientRun"
    by (simp_all add: lenientRun_def envLocal_def)
  have f: "skipped (lenientFile c) = None" "runInfo (lenientFile c) = Some lenientRun"
    "startServer (lenientFile c) = Some quietHook"
    "terminateServer (lenientFile c) = Some (emittingHook warningEntry)" for c
    by (simp_all add: lenientFile_def)
  have s: "callHook StartServer quietHook (emit [NewPage] world0) = (None, startedWorld)"
    by code_simp
  have r1: "runTests envLocal (lenientFile (warningCase ''warns'')) True startedWorld =
              Return True (casePassedWorld ''warns'')"
    by code_simp
  have t1: "callHook TerminateServer (emittingHook warningEntry) (casePassedWorld ''warns'') =
              (None, (emit [TerminateServer] (casePassedWorld ''warns''))\<lparr>logs := [warningEntry]\<rparr>)"
    by code_simp
  have l1: "list_ex (\<lambda>e. severity e = Warning)
              (logs ((emit [TerminateServer] (casePassedWorld ''warns''))\<lparr>logs := [warningEntry]\<rparr>))"
    by (simp add: warningEntry_def)
  have r2: "runTests envLocal (lenientFile (rejectingCase ''throws'' (Truthy ''boom''))) True
              startedWorld = Return False throwsFailedWorld"
    by code_simp
  have t2: "callHook TerminateServer (emittingHook warningEntry) throwsFailedWorld =
              (None, (emit [TerminateServer] throwsFailedWorld)\<lparr>logs := [warningEntry]\<rparr>)"
    by code_simp
  from post_stop_check_fails_on_warning [OF f d(1) s _ t1 d(2), where isSecondAttempt = False
      and success = True] r1 l1 d
  have a: "(\<forall>w'. runServerAndTests envLocal (lenientFile (warningCase ''warns'')) False world0
          \<noteq> Return True w') \<and>
     LogFail ''error(s)/warning(s) occurred during server termination'' True
       \<in> set (trace (world_of
          (runServerAndTests envLocal (lenientFile (warningCase ''warns'')) False world0)))"
    by simp
  from post_stop_check_fails_on_warning [OF f d(1) s _ t2 d(2), where isSecondAttempt = False
      and success = False] r2 d
  have b: "trace (world_of (runServerAndTests envLocal
            (lenientFile (rejectingCase ''throws'' (Truthy ''boom''))) False world0)) =
     trace throwsFailedWorld @ [TerminateServer, PageClose]"
    by simp
  from d(1) r1 a r2 b show ?thesis by blast
qed

section \<open>The case executor on each kind of body\<close>

lemma runTest_settles_before_timer:
  "runTest env (SettlesBeforeTimer s) ms =
     Returned \<lparr>promise = (case s of Fulfils \<Rightarrow> Fulfilled | Rejects v \<Rightarrow> Rejected v),
               timer = Cleared\<rparr>"
  by (simp add: runTest_def awaitedSettles_def timerFires_def clearTimeout_def resolve_def
      reject_def split: settle.splits)

lemma runTest_timer_first:
  "b = SettlesAfterTimer s \<or> b = NeverSettles \<Longrightarrow>
   runTest env b ms = Returned \<lparr>promise = Rejected (timeoutError env ms), timer = Fired\<rparr>"
  by (auto simp: runTest_def awaitedSettles_def timerFires_def clearTimeout_def resolve_def
      reject_def Let_def split: settle.splits)

text \<open>
  Claim C5. When the body settles before the timer, the promise of \<open>runTest\<close> takes the
  body's outcome and the timer is cleared; when the timer fires first, or the body never
  settles, the promise is rejected with the timeout error and a later settlement of the
  body changes nothing (the two lemmas above). When the call of the body itself throws,
  the error leaves \<open>runTest\<close> at once, but nothing clears the timer: it stays armed, and
  when it fires it rejects the promise that was never handed to the caller.
\<close>

theorem sync_throw_leaves_timer_armed:
  "runTest env (ThrowsSync v) ms = CallThrew v \<lparr>promise = Pending, timer = Armed\<rparr> \<and>
   timerFires env ms \<lparr>promise = Pending, timer = Armed\<rparr> =
     \<lparr>promise = Rejected (timeoutError env ms), timer = Fired\<rparr>"
  by (simp add: runTest_def timerFires_def reject_def)

section \<open>The verdict on a case\<close>

text \<open>One iteration, given what the body, the executor and the after-each hook do.\<close>

lemma runCase_unfold:
  assumes "testFn c (logs w @ [\<lparr>logSource = ''test()'', logText = testDesc c, severity = Info\<rparr>])
             = (b, l)"
    and "caught (runTest env b (testFunctionTimeout ri)) = Some err"
    and "ae (truthy err) l = (r, l')"
  shows "runCase env ri ae fin c w =
     (let w5 = (emit [LogProgress (''[test] '' @ testDesc c), CallTestFn (testDesc c),
                      ProgressDone (truthy err), AfterEach (truthy err)] w)\<lparr>logs := l'\<rparr>
      in case r of
           Some v \<Rightarrow> Throw (Raised v) w5
         | None \<Rightarrow>
            if truthy err then
              Return True (logFailure err
                (''the test '' @ dquote @ testDesc c @ dquote @ '' threw an error'') fin w5)
            else if hasFailLogs (\<not> doNotFailOnWarning ri) l' then
              Return True (logFailure None
                (getErrorType (\<not> doNotFailOnWarning ri) @ '' occurred while running the test ''
                   @ dquote @ testDesc c @ dquote) fin w5)
            else Return False w5)"
  using assms
  by (simp add: runCase_def Let_def callHook_def emit_def Logs_add_def split: option.splits)

lemma runCase_verdict:
  assumes "testFn c (logs w @ [\<lparr>logSource = ''test()'', logText = testDesc c, severity = Info\<rparr>])
             = (b, l)"
    and "caught (runTest env b (testFunctionTimeout ri)) = Some err"
    and "ae (truthy err) l = (None, l')"
  shows "\<exists>w'. runCase env ri ae fin c w =
           Return (truthy err \<or> hasFailLogs (\<not> doNotFailOnWarning ri) l') w'"
  by (simp add: runCase_unfold [where ae = ae, OF assms] Let_def)

lemma runCases_stops_at_first_failure:
  "runCase env ri ae fin c w = Return True w' \<Longrightarrow>
   runCases env ri ae fin (c # cs) w = Return False w'"
  by simp

lemma runCases_continues_after_pass:
  "runCase env ri ae fin c w = Return False w' \<Longrightarrow>
   runCases env ri ae fin (c # cs) w = runCases env ri ae fin cs (clearLogs w')"
  by simp

text \<open>
  Claim C3. The loop stops at the first case whose verdict is a failure and goes on, with
  the log cleared, after a case whose verdict is a pass. The verdict is a failure when
  the caught value is truthy or the log holds a disqualifying entry, warnings counting
  unless the file disabled it (the lemmas above). The truthiness of the caught value
  stands for "the case threw": in the file below the first case rejects with a falsy
  value and leaves the log clean; it is counted as passed, the second case runs, and the
  loop reports success.
\<close>

theorem falsy_rejection_counts_as_pass:
  "runTests envLocal falsyFile True startedWorld =
     Return True
       \<lparr>logs = [],
        trace = [NewPage, StartServer,
                 LogProgress ''[test] first'', CallTestFn ''first'', ProgressDone False,
                 AfterEach False,
                 LogProgress ''[test] second'', CallTestFn ''second'', ProgressDone False,
                 AfterEach False],
        loads = 0\<rparr>"
  by code_simp

section \<open>The log at the checkpoints\<close>

lemma caseStartLogs_Cons:
  "caseStartLogs env ri ae fin (c # cs) w =
     logs w # (if \<exists>w'. runCase env ri ae fin c w = Return False w'
               then caseStartLogs env ri ae fin cs (clearLogs (world_of (runCase env ri ae fin c w)))
               else [])"
  by (cases "runCase env ri ae fin c w") (simp_all add: world_of_def)

lemma caseStartLogs_empty:
  "logs w = [] \<Longrightarrow> l \<in> set (caseStartLogs env ri ae fin cs w) \<Longrightarrow> l = []"
proof (induction cs arbitrary: w)
  case Nil
  then show ?case by simp
next
  case (Cons c cs)
  show ?case
  proof (cases "l = logs w")
    case True
    with Cons.prems show ?thesis by simp
  next
    case False
    with Cons.prems(2)
    have "l \<in> set (caseStartLogs env ri ae fin cs
                     (clearLogs (world_of (runCase env ri ae fin c w))))"
      unfolding caseStartLogs_Cons by (simp split: if_splits)
    then show ?thesis by (rule Cons.IH [rotated]) simp
  qed
qed

lemma caseStartLogs_tl:
  assumes "l \<in> set (tl (caseStartLogs env ri ae fin cs w))"
  shows "l = []"
proof (cases cs)
  case Nil
  with assms show ?thesis by simp
next
  case (Cons c cs')
  with assms have "l \<in> set (caseStartLogs env ri ae fin cs'
                     (clearLogs (world_of (runCase env ri ae fin c w))))"
    by (simp add: caseStartLogs_Cons del: caseStartLogs.simps split: if_splits)
  then show ?thesis by (rule caseStartLogs_empty [rotated]) simp
qed

lemma caseStartLogs_hd:
  "caseStartLogs env ri ae fin cs w \<noteq> [] \<Longrightarrow> hd (caseStartLogs env ri ae fin cs w) = logs w"
  by (cases cs) simp_all

lemma runAndStop_Return:
  assumes "runAndStop env ti terminate fin w = Return ok w'"
  obtains success w1 w2 where "runTests env ti fin w = Return success w1"
    "callHook TerminateServer terminate w1 = (None, w2)"
proof (cases "runTests env ti fin w")
  case (Return success w1)
  obtain r w2 where c: "callHook TerminateServer terminate w1 = (r, w2)"
    by (cases "callHook TerminateServer terminate w1")
  with assms Return have "r = None"
    by (cases r) (simp_all add: runAndStop_def)
  with Return c that show ?thesis by simp
qed (use assms in \<open>simp_all add: runAndStop_def\<close>)

lemma runAndStop_logs:
  assumes "runAndStop env ti terminate fin w = Return ok w'"
  shows "logs w' = []"
proof -
  from assms obtain success w1 w2 where
    "runTests env ti fin w = Return success w1"
    "callHook TerminateServer terminate w1 = (None, w2)"
    by (rule runAndStop_Return)
  from runAndStop_stopped [OF this] assms show ?thesis
    by (auto simp: abortMaybe_def split: if_splits)
qed

lemma runServerAndTests_Return:
  assumes "runServerAndTests env ti b w = Return ok w'" "skipped ti = None"
  obtains ri start terminate where "runInfo ti = Some ri" "startServer ti = Some start"
    "terminateServer ti = Some terminate"
  using assms by (auto simp: runServerAndTests_def split: option.splits)

lemma runServerAndTests_logs:
  assumes "runServerAndTests env ti b w = Return ok w'"
  shows "logs w' = (if skipped ti = None then [] else logs w)"
proof (cases "skipped ti")
  case (Some reason)
  from runServerAndTests_skipped [OF Some, of env b w] assms Some
  show ?thesis by (auto split: if_splits)
next
  case None
  with assms obtain ri start terminate where
    f: "runInfo ti = Some ri" "startServer ti = Some start" "terminateServer ti = Some terminate"
    by (rule runServerAndTests_Return)
  obtain r w2 where c: "callHook StartServer start (emit [NewPage] w) = (r, w2)"
    by (cases "callHook StartServer start (emit [NewPage] w)")
  show ?thesis
  proof (cases r)
    case None
    with runServerAndTests_started [OF \<open>skipped ti = None\<close> f, of w w2 env b] c assms
    show ?thesis using \<open>skipped ti = None\<close> runAndStop_logs [of env ti terminate "b \<or> \<not> isFlaky ri" w2 ok w'] by simp
  next
    case (Some err)
    with runServerAndTests_start_failed [OF \<open>skipped ti = None\<close> f, of w err w2 env b] c assms
    show ?thesis using \<open>skipped ti = None\<close> by (auto simp: abortMaybe_def split: if_splits)
  qed
qed

lemma buildAndTest_Return:
  assumes "buildAndTest env ld f b w = Return ok w'"
  obtains ti w3 where "ld f (loads w) = Inr ti"
    "runServerAndTests env ti b
       ((emit [CleanBuild] (emit [BuildTs f (replaceFirst ''.ts'' ''.mjs'' f),
           SetCurrentTest (Some f), Import (replaceFirst ''.ts'' ''.mjs'' f)] w))
          \<lparr>loads := Suc (loads w)\<rparr>) = Return ok w3"
    "w' = emit [SetCurrentTest None] w3"
  using assms
  by (auto simp: buildAndTest_def Let_def split: if_splits sum.splits result.splits)

lemma buildAndTest_logs:
  assumes "logs w = []" "buildAndTest env ld f b w = Return ok w'"
  shows "logs w' = []"
proof -
  from assms(2) obtain ti w3 where
    "runServerAndTests env ti b
       ((emit [CleanBuild] (emit [BuildTs f (replaceFirst ''.ts'' ''.mjs'' f),
           SetCurrentTest (Some f), Import (replaceFirst ''.ts'' ''.mjs'' f)] w))
          \<lparr>loads := Suc (loads w)\<rparr>) = Return ok w3"
    "w' = emit [SetCurrentTest None] w3"
    by (rule buildAndTest_Return)
  with runServerAndTests_logs [OF this(1)] assms(1) show ?thesis by simp
qed

text \<open>
  Claim C8, as amended. The log is cleared after each passing case, so every case of a
  file but the first finds it empty; the first case finds what the server start hook
  left in it. When the per-file executor returns for a file that declared \<^verbatim>\<open>run()\<close>,
  passing or failing, the log is empty; for a skipped file the log is left as it was.
  Hence a file that starts with an empty log ends with an empty log, whatever its outcome.
\<close>

theorem log_cleared_at_checkpoints:
  "(\<forall>l \<in> set (tl (fileCaseStartLogs env ti b w)). l = []) \<and>
   (\<forall>start. startServer ti = Some start \<longrightarrow> fileCaseStartLogs env ti b w \<noteq> [] \<longrightarrow>
      hd (fileCaseStartLogs env ti b w) = snd (start (logs w))) \<and>
   (\<forall>ok w'. runServerAndTests env ti b w = Return ok w' \<longrightarrow>
      logs w' = (if skipped ti = None then [] else logs w)) \<and>
   (\<forall>ld f ok w'. logs w = [] \<longrightarrow> buildAndTest env ld f b w = Return ok w' \<longrightarrow> logs w' = [])"
proof (intro conjI allI impI ballI)
  fix l
  assume "l \<in> set (tl (fileCaseStartLogs env ti b w))"
  then show "l = []"
    by (auto simp: fileCaseStartLogs_def split: option.splits prod.splits
        dest: caseStartLogs_tl)
next
  fix start
  assume "startServer ti = Some start" "fileCaseStartLogs env ti b w \<noteq> []"
  then show "hd (fileCaseStartLogs env ti b w) = snd (start (logs w))"
    by (auto simp: fileCaseStartLogs_def callHook_def caseStartLogs_hd
        split: option.splits prod.splits)
next
  fix ok w'
  assume "runServerAndTests env ti b w = Return ok w'"
  then show "logs w' = (if skipped ti = None then [] else logs w)"
    by (rule runServerAndTests_logs)
next
  fix ld f ok w'
  assume "logs w = []" "buildAndTest env ld f b w = Return ok w'"
  then show "logs w' = []" by (rule buildAndTest_logs)
qed

text \<open>The first case of a file whose server printed a line while starting finds that
  line in the log; the second case finds the log empty.\<close>

theorem first_case_sees_server_start_log:
  "fileCaseStartLogs envLocal chattyStartFile False world0 = [[listeningEntry], []] \<and>
   runServerAndTests envLocal chattyStartFile False world0 =
     Return True
       \<lparr>logs = [],
        trace = [NewPage, StartServer,
                 LogProgress ''[test] first'', CallTestFn ''first'', ProgressDone False,
                 AfterEach False,
                 LogProgress ''[test] second'', CallTestFn ''second'', ProgressDone False,
                 AfterEach False, TerminateServer, PageClose, LogPass],
        loads = 0\<rparr>"
  by code_simp

theorem log_cleared_at_checkpoints_witness:
  "fileCaseStartLogs envLocal chattyStartFile False world0 = [[listeningEntry], []] \<and>
   hd (tl (fileCaseStartLogs envLocal chattyStartFile False world0)) = [] \<and>
   hd (fileCaseStartLogs envLocal chattyStartFile False world0) =
     snd (emittingHook listeningEntry (logs world0)) \<and>
   logs (world_of (runServerAndTests envLocal chattyStartFile False world0)) = [] \<and>
   logs (world_of (runServerAndTests envLocal skippedFile False
           (world0\<lparr>logs := [listeningEntry]\<rparr>))) = [listeningEntry] \<and>
   logs (world_of (buildAndTest envLocal flakyLoader ''b.test.ts'' False world0)) = []"
proof -
  define r1 where "r1 = world_of (runServerAndTests envLocal chattyStartFile False world0)"
  define r2 where "r2 = world_of (runServerAndTests envLocal skippedFile False
           (world0\<lparr>logs := [listeningEntry]\<rparr>))"
  define r3 where "r3 = world_of (buildAndTest envLocal flakyLoader ''b.test.ts'' False world0)"
  have c: "fileCaseStartLogs envLocal chattyStartFile False world0 = [[listeningEntry], []]"
    by code_simp
  have s: "startServer chattyStartFile = Some (emittingHook listeningEntry)"
    "skipped chattyStartFile = None" "skipped skippedFile \<noteq> None"
    by (simp_all add: chattyStartFile_def skippedFile_def)
  have e1: "runServerAndTests envLocal chattyStartFile False world0 = Return True r1"
    unfolding r1_def by code_simp
  have e2: "runServerAndTests envLocal skippedFile False (world0\<lparr>logs := [listeningEntry]\<rparr>) =
      Return True r2"
    unfolding r2_def by code_simp
  have e3: "buildAndTest envLocal flakyLoader ''b.test.ts'' False world0 = Return False r3"
    unfolding r3_def by code_simp
  have e: "logs world0 = []" by (simp add: world0_def)
  note th1 = log_cleared_at_checkpoints [of envLocal chattyStartFile False world0]
  note th2 = log_cleared_at_checkpoints [of envLocal skippedFile False
      "world0\<lparr>logs := [listeningEntry]\<rparr>"]
  from th1 c have a: "hd (tl (fileCaseStartLogs envLocal chattyStartFile False world0)) = []"
    by simp
  from th1 have "fileCaseStartLogs envLocal chattyStartFile False world0 \<noteq> [] \<longrightarrow>
      hd (fileCaseStartLogs envLocal chattyStartFile False world0) =
        snd (emittingHook listeningEntry (logs world0))"
    using s(1) by blast
  with c have b: "hd (fileCaseStartLogs envLocal chattyStartFile False world0) =
     snd (emittingHook listeningEntry (logs world0))"
    by simp
  from th1 have "\<forall>ok w'. runServerAndTests envLocal chattyStartFile False world0 = Return ok w' \<longrightarrow>
      logs w' = (if skipped chattyStartFile = None then [] else logs world0)"
    by blast
  with e1 s(2) have d: "logs r1 = []" by auto
  from th2 have "\<forall>ok w'. runServerAndTests envLocal skippedFile False
        (world0\<lparr>logs := [listeningEntry]\<rparr>) = Return ok w' \<longrightarrow>
      logs w' = (if skipped skippedFile = None then []
                 else logs (world0\<lparr>logs := [listeningEntry]\<rparr>))"
    by blast
  with e2 s(3) have f: "logs r2 = [listeningEntry]" by auto
  from th1 have "\<forall>ld f ok w'. logs world0 = [] \<longrightarrow>
      buildAndTest envLocal ld f False world0 = Return ok w' \<longrightarrow> logs w' = []"
    by blast
  with e e3 have g: "logs r3 = []" by blast
  from c a b d f g show ?thesis
    unfolding r1_def r2_def r3_def by blast
qed

section \<open>The circuit breaker of parallel CI\<close>

lemma timerFires_breaker [simp]:
  "timerFires (env\<lparr>isParallelCI := p\<rparr>) ms r = timerFires env ms r"
  by (simp add: timerFires_def timeoutError_def)

lemma runTest_breaker [simp]: "runTest (env\<lparr>isParallelCI := p\<rparr>) b ms = runTest env b ms"
  by (cases b) (simp_all add: runTest_def)

lemma runCase_breaker [simp]:
  "runCase (env\<lparr>isParallelCI := p\<rparr>) ri ae fin c w = runCase env ri ae fin c w"
  by (simp add: runCase_def)

lemma runCases_breaker [simp]:
  "runCases (env\<lparr>isParallelCI := p\<rparr>) ri ae fin cs w = runCases env ri ae fin cs w"
  by (induction cs arbitrary: w) (simp_all split: result.splits)

lemma runTests_breaker [simp]:
  "runTests (env\<lparr>isParallelCI := p\<rparr>) ti fin w = runTests env ti fin w"
  by (simp add: runTests_def split: option.splits)

lemma runAndStop_breaker:
  assumes "isParallelCI env"
    "runAndStop (env\<lparr>isParallelCI := False\<rparr>) ti terminate fin w = Return False w'"
  shows "if fin
         then \<exists>w''. runAndStop env ti terminate fin w = Exit 1 w'' \<and>
                trace w'' = trace w' @ [ProcessExit 1]
         else runAndStop env ti terminate fin w = Return False w'"
proof -
  from assms(2) obtain success w1 w2 where
    r: "runTests env ti fin w = Return success w1" and
    t: "callHook TerminateServer terminate w1 = (None, w2)"
    by (rule runAndStop_Return [where env = "env\<lparr>isParallelCI := False\<rparr>", simplified])
  from r have r': "runTests (env\<lparr>isParallelCI := False\<rparr>) ti fin w = Return success w1"
    by simp
  from assms runAndStop_stopped [OF r' t] runAndStop_stopped [OF r t]
  show ?thesis
    by (auto simp: abortMaybe_def split: if_splits)
qed

lemma runServerAndTests_breaker:
  assumes "isParallelCI env" "runInfo ti = Some ri"
    "runServerAndTests (env\<lparr>isParallelCI := False\<rparr>) ti b w = Return False w'"
  shows "if b \<or> \<not> isFlaky ri
         then \<exists>w''. runServerAndTests env ti b w = Exit 1 w'' \<and>
                trace w'' = trace w' @ [ProcessExit 1]
         else runServerAndTests env ti b w = Return False w'"
proof -
  have sk: "skipped ti = None"
  proof (cases "skipped ti")
    case (Some reason)
    from runServerAndTests_skipped [OF Some, of "env\<lparr>isParallelCI := False\<rparr>" b w]
      assms(3)
    show ?thesis by (simp split: if_splits)
  qed
  with assms(3) obtain ri' start terminate where
    f: "runInfo ti = Some ri'" "startServer ti = Some start" "terminateServer ti = Some terminate"
    by (rule runServerAndTests_Return)
  with assms(2) have [simp]: "ri' = ri" by simp
  obtain r w2 where c: "callHook StartServer start (emit [NewPage] w) = (r, w2)"
    by (cases "callHook StartServer start (emit [NewPage] w)")
  show ?thesis
  proof (cases r)
    case None
    from runServerAndTests_started [OF sk f c [unfolded None]]
    have e: "runServerAndTests env' ti b w = runAndStop env' ti terminate (b \<or> \<not> isFlaky ri) w2"
      for env' by simp
    from runAndStop_breaker [OF assms(1) assms(3) [unfolded e]]
    show ?thesis unfolding e .
  next
    case (Some err)
    from runServerAndTests_start_failed [OF sk f c [unfolded Some]]
    have e: "runServerAndTests env' ti b w =
           abortMaybe env' (b \<or> \<not> isFlaky ri) (\<lambda>w3. Return False w3)
             (logFailure (Some err) ''an error occurred while starting the server''
                (b \<or> \<not> isFlaky ri) w2)" for env'
      by simp
    from assms(1,3) show ?thesis
      unfolding e by (auto simp: abortMaybe_def)
  qed
qed

text \<open>
  Claim C6. In parallel-CI mode, take an attempt at a file that declared \<^verbatim>\<open>run()\<close>
  and that fails when the circuit breaker is left out. If the attempt is final (it
  belongs to pass 2, or the file is not marked flaky), then with the circuit breaker the
  process exits with status 1 where the attempt would have returned its failure, the
  exit being the last thing that happens: the loop of the pass, whatever files remain,
  ends in that same exit, and so does the scheduler when the attempt belongs to pass 1.
  If the attempt is not final, it returns its failure as without the circuit breaker.
\<close>

theorem final_failure_exits_in_parallel_ci:
  assumes "isParallelCI env" "ld testFile (loads w) = Inr ti" "runInfo ti = Some ri"
    "buildAndTest (env\<lparr>isParallelCI := False\<rparr>) ld testFile isSecondAttempt w = Return False w1"
  shows "if isSecondAttempt \<or> \<not> isFlaky ri
         then \<exists>w2 tr. trace w1 = tr @ [SetCurrentTest None] \<and> trace w2 = tr @ [ProcessExit 1] \<and>
                buildAndTest env ld testFile isSecondAttempt w = Exit 1 w2 \<and>
                (\<forall>rest failed.
                   attemptLoop env ld isSecondAttempt (testFile # rest) failed w = Exit 1 w2) \<and>
                (\<forall>rest. isSecondAttempt \<or> runTestFiles env ld (testFile # rest) w = Exit 1 w2)
         else buildAndTest env ld testFile isSecondAttempt w = Return False w1"
proof -
  define w0 where
    "w0 = (emit [CleanBuild] (emit [BuildTs testFile (replaceFirst ''.ts'' ''.mjs'' testFile),
           SetCurrentTest (Some testFile), Import (replaceFirst ''.ts'' ''.mjs'' testFile)] w))
          \<lparr>loads := Suc (loads w)\<rparr>"
  from assms(4) obtain ti' w3 where
    l: "ld testFile (loads w) = Inr ti'" and
    r: "runServerAndTests (env\<lparr>isParallelCI := False\<rparr>) ti' isSecondAttempt w0 = Return False w3" and
    w1: "w1 = emit [SetCurrentTest None] w3"
    unfolding w0_def by (rule buildAndTest_Return)
  from l assms(2) have [simp]: "ti' = ti" by simp
  have names: "endsWith testFile ''.ts''"
    "endsWith (replaceFirst ''.ts'' ''.mjs'' testFile) ''.mjs''"
    using assms(4) by (auto simp: buildAndTest_def Let_def split: if_splits)
  have b: "buildAndTest env' ld testFile isSecondAttempt w =
      (case runServerAndTests env' ti isSecondAttempt w0 of
         Return success w3 \<Rightarrow> Return success (emit [SetCurrentTest None] w3)
       | Exit n w3 \<Rightarrow> Exit n w3 | Throw e w3 \<Rightarrow> Throw e w3 | Hang w3 \<Rightarrow> Hang w3)" for env'
    using names assms(2) by (simp add: buildAndTest_def Let_def w0_def)
  note br = runServerAndTests_breaker [OF assms(1,3) r [simplified]]
  show ?thesis
  proof (cases "isSecondAttempt \<or> \<not> isFlaky ri")
    case True
    with br obtain w2 where
      e: "runServerAndTests env ti isSecondAttempt w0 = Exit 1 w2" and
      t: "trace w2 = trace w3 @ [ProcessExit 1]"
      by auto
    from e have x: "buildAndTest env ld testFile isSecondAttempt w = Exit 1 w2"
      by (simp add: b)
    then have "attemptLoop env ld isSecondAttempt (testFile # rest) failed w = Exit 1 w2"
      for rest failed by simp
    moreover from this have "isSecondAttempt \<or> runTestFiles env ld (testFile # rest) w = Exit 1 w2"
      for rest by (cases isSecondAttempt) (simp_all add: runTestFiles_def)
    ultimately show ?thesis
      using True w1 t x by (intro iffD2 [OF if_P] exI [of _ w2] exI [of _ "trace w3"]) auto
  next
    case False
    with br have "runServerAndTests env ti isSecondAttempt w0 = Return False w3" by simp
    with False w1 b [of env] show ?thesis by simp
  qed
qed

theorem final_failure_exits_in_parallel_ci_witness:
  "buildAndTest (envParallelCI\<lparr>isParallelCI := False\<rparr>) brokenLoader ''a.test.ts'' False world0 =
     Return False \<lparr>logs = [], trace = brokenTrace @ [SetCurrentTest None], loads = 1\<rparr> \<and>
   (\<exists>w2. trace w2 = brokenTrace @ [ProcessExit 1] \<and>
      runTestFiles envParallelCI brokenLoader [''a.test.ts'', ''b.test.ts''] world0 = Exit 1 w2)"
proof -
  have p: "isParallelCI envParallelCI" by (simp add: envParallelCI_def)
  have l: "brokenLoader ''a.test.ts'' (loads world0) = Inr brokenFile"
    by (simp add: brokenLoader_def)
  have ri: "runInfo brokenFile = Some plainRun" by (simp add: brokenFile_def)
  have h: "buildAndTest (envParallelCI\<lparr>isParallelCI := False\<rparr>) brokenLoader ''a.test.ts'' False
             world0 =
           Return False \<lparr>logs = [], trace = brokenTrace @ [SetCurrentTest None], loads = 1\<rparr>"
    by code_simp
  have fin: "False \<or> \<not> isFlaky plainRun" by (simp add: plainRun_def)
  from final_failure_exits_in_parallel_ci [OF p l ri h] fin obtain w2 tr where
    "brokenTrace @ [SetCurrentTest None] = tr @ [SetCurrentTest None]"
    "trace w2 = tr @ [ProcessExit 1]"
    "\<forall>rest. False \<or> runTestFiles envParallelCI brokenLoader (''a.test.ts'' # rest) world0 = Exit 1 w2"
    by auto
  then have "trace w2 = brokenTrace @ [ProcessExit 1] \<and>
      runTestFiles envParallelCI brokenLoader [''a.test.ts'', ''b.test.ts''] world0 = Exit 1 w2"
    by simp
  with h show ?thesis by blast
qed

section \<open>Failures of a file stay inside the per-file executor\<close>

lemma failCount_append [simp]: "failCount (xs @ ys) = failCount xs + failCount ys"
  by (simp add: failCount_def)

lemma failCount_Nil [simp]: "failCount [] = 0"
  by (simp add: failCount_def)

lemma failCount_Cons [simp]: "failCount (e # es) = (if isLogFail e then 1 else 0) + failCount es"
  by (simp add: failCount_def)

lemma failCount_logFailure [simp]:
  "failCount (trace (logFailure err reason fin w)) = Suc (failCount (trace w))"
  by (simp add: logFailure_trace)







lemma abortMaybe_contained:
  "contained (abortMaybe env fin (\<lambda>w. Return x (k w)) w)"
  by (simp add: abortMaybe_def contained_def)















end
